theory Spec2Isabelle
  imports Main
begin

section \<open>Flag memory: the dedupe cache with a time window\<close>

text \<open>
  The server keeps two module-level containers: the set \<open>flaggedCache\<close> of announced
  message ids and the map \<open>cacheTimes\<close> from a message id to the clock reading taken
  when the id was remembered. \<open>trace\<close> is the history of the run: every mark that
  \<open>rememberFlagged\<close> sets and every call the server makes to the chat backend and
  to the console is appended to it when it happens, so that the order of effects can be
  stated. Clock readings are the integers returned by \<open>Date.now()\<close>
  (milliseconds); each reading is passed to the function that takes it.
\<close>

record notice =
  to_type :: string
  to_id :: "string option"
  author :: string
  preview :: string

datatype effect =
    Remember string int
  | FlagMessage string
  | GetMessage string
  | SendMessage notice
  | ConsoleWarn
  | ConsoleError

record server =
  flaggedCache :: "string set"
  cacheTimes :: "string \<rightharpoonup> int"
  trace :: "effect list"

definition FLAG_TTL_MS :: int where
  "FLAG_TTL_MS = 5 * 60 * 1000"

text \<open>
  \<open>flaggedCache.add(id); cacheTimes.set(id, Date.now())\<close>; the third update is the
  entry of the mark in the history.
\<close>

definition rememberFlagged :: "int \<Rightarrow> string \<Rightarrow> server \<Rightarrow> server" where
  "rememberFlagged now i st =
     st\<lparr>flaggedCache := insert i (flaggedCache st),
        cacheTimes := (cacheTimes st)(i \<mapsto> now),
        trace := trace st @ [Remember i now]\<rparr>"

text \<open>
  \<open>if (!t) return false\<close>: the stored reading is falsy when the key is absent
  (\<open>undefined\<close>) and also when the stored number is \<open>0\<close>. The clock is read only
  after that test.
\<close>

definition wasFlaggedRecently :: "int \<Rightarrow> string \<Rightarrow> server \<Rightarrow> bool \<times> server" where
  "wasFlaggedRecently now i st =
     (case cacheTimes st i of
        None \<Rightarrow> (False, st)
      | Some t \<Rightarrow>
          if t = 0 then (False, st)
          else if now - t > FLAG_TTL_MS then
            (False, st\<lparr>flaggedCache := flaggedCache st - {i},
                       cacheTimes := (cacheTimes st)(i := None)\<rparr>)
          else (True, st))"

section \<open>The redactor\<close>

text \<open>
  \<open>REDACT_RE = /\b(fuck|shit|bitch|asshole|dick|bastard|cunt)\b/gi\<close> and
  \<open>PROFANITY_RE\<close>, the same pattern with the flag \<open>i\<close> alone. A word
  character (\<open>\w\<close>) is an ASCII letter, a digit or the underscore. With the flag
  \<open>i\<close> two characters match when their upper-case forms agree; against the ASCII
  letters of the alternatives only ASCII letters can do so. A \<open>char\<close> stands for
  one code unit of the string.
\<close>

definition is_word_char :: "char \<Rightarrow> bool" where
  "is_word_char c =
     (let n = (of_char c :: nat) in
      (65 \<le> n \<and> n \<le> 90) \<or> (97 \<le> n \<and> n \<le> 122) \<or> (48 \<le> n \<and> n \<le> 57) \<or> n = 95)"

definition canonicalize :: "char \<Rightarrow> char" where
  "canonicalize c =
     (let n = (of_char c :: nat) in if 97 \<le> n \<and> n \<le> 122 then char_of (n - 32) else c)"

definition alternatives :: "string list" where
  "alternatives = [''fuck'', ''shit'', ''bitch'', ''asshole'', ''dick'', ''bastard'', ''cunt'']"

text \<open>
  \<open>\b\<close> holds between two positions when exactly one of the character before and the
  character after is a word character; beyond either end of the input there is none.
  The character before is passed as the flag \<open>pw\<close> (it is a word character).
\<close>

definition word_boundary :: "bool \<Rightarrow> string \<Rightarrow> bool" where
  "word_boundary pw s = (pw \<noteq> (case s of [] \<Rightarrow> False | c # _ \<Rightarrow> is_word_char c))"

definition matches_ci :: "string \<Rightarrow> string \<Rightarrow> bool" where
  "matches_ci t s =
     (length t \<le> length s \<and> map canonicalize (take (length t) s) = map canonicalize t)"

text \<open>
  The group tries its alternatives from left to right; an alternative is taken when the
  input continues with it and \<open>\b\<close> holds after it. The result is the length of the
  match.
\<close>

fun match_group :: "string list \<Rightarrow> string \<Rightarrow> nat option" where
  "match_group [] s = None"
| "match_group (t # ts) s =
     (if matches_ci t s
         \<and> word_boundary (is_word_char (last (take (length t) s))) (drop (length t) s)
      then Some (length t) else match_group ts s)"

definition match_at :: "bool \<Rightarrow> string \<Rightarrow> nat option" where
  "match_at pw s = (if word_boundary pw s then match_group alternatives s else None)"

text \<open>
  \<open>PROFANITY_RE.test(s)\<close>: is there a position of \<open>s\<close> where the pattern matches.
\<close>

fun test_from :: "bool \<Rightarrow> string \<Rightarrow> bool" where
  "test_from pw [] = False"
| "test_from pw (c # cs) =
     (case match_at pw (c # cs) of
        Some n \<Rightarrow> True
      | None \<Rightarrow> test_from (is_word_char c) cs)"

definition PROFANITY_RE_test :: "string \<Rightarrow> bool" where
  "PROFANITY_RE_test s = test_from False s"

text \<open>
  \<open>s.replace(REDACT_RE, (m) => m[0] + '***')\<close>: the input is scanned from the left;
  where the pattern matches, the first character of the match and three asterisks are
  written and the scan goes on after the match (of length \<open>n\<close>, so after
  \<open>n - 1\<close> characters of the rest); elsewhere the character is copied.
\<close>

fun replace_from :: "bool \<Rightarrow> string \<Rightarrow> string" where
  "replace_from pw [] = []"
| "replace_from pw (c # cs) =
     (case match_at pw (c # cs) of
        None \<Rightarrow> c # replace_from (is_word_char c) cs
      | Some n \<Rightarrow>
          (c # ''***'') @ replace_from (is_word_char ((c # cs) ! (n - 1))) (drop (n - 1) cs))"

definition redact :: "string \<Rightarrow> string" where
  "redact s = replace_from False s"

text \<open>
  The redactor in the words of its contract: the text is cut into maximal runs of word
  characters and the characters between them; a run that is one of the profane tokens,
  letter case apart, becomes its first character and three asterisks; everything else
  is copied.
\<close>

definition is_profane :: "string \<Rightarrow> bool" where
  "is_profane w = (map canonicalize w \<in> set (map (map canonicalize) alternatives))"

definition masked :: "string \<Rightarrow> string" where
  "masked w = (if is_profane w then hd w # ''***'' else w)"

function redact_words :: "string \<Rightarrow> string" where
  "redact_words [] = []"
| "redact_words (c # cs) =
     (if is_word_char c
      then masked (takeWhile is_word_char (c # cs)) @ redact_words (dropWhile is_word_char cs)
      else c # redact_words cs)"
  by pat_completeness auto
termination
  by (relation "measure length") (auto simp: length_dropWhile_le less_Suc_eq_le)

section \<open>The notice dispatcher\<close>

text \<open>
  The webhook payload, as the handler reads it:
  \<open>{type, message: {id, cid, user: {id}, text}, item: {message_id, recommended_action}}\<close>.
  Every field may be missing (\<open>None\<close>); the fields that are present are strings, as
  the chat backend sends them. A string is truthy when it is not empty. A parsed value
  that is no object, or an object without these fields, is the payload with every field
  missing.
\<close>

record user =
  user_id :: "string option"

record message =
  msg_id :: "string option"
  msg_cid :: "string option"
  msg_user :: "user option"
  msg_text :: "string option"

record item =
  message_id :: "string option"
  recommended_action :: "string option"

record payload =
  ev_type :: "string option"
  ev_message :: "message option"
  ev_item :: "item option"

datatype 'a promise = Resolves 'a | Rejects

text \<open>
  What one request meets outside the server: the clock readings of its calls of
  \<open>Date.now()\<close> (in the guard of the \<open>message.new\<close> branch, in the lookup of
  \<open>postNotice\<close>, and in \<open>rememberFlagged\<close>), \<open>JSON.parse\<close> (\<open>None\<close>
  when it throws), and the chat backend: whether \<open>flagMessage\<close> and
  \<open>sendMessage\<close> resolve, and what \<open>getMessage\<close> resolves to. Every call to the
  backend settles.
\<close>

record env =
  now_guard :: int
  now_check :: int
  now_mark :: int
  JSON_parse :: "string \<Rightarrow> payload option"
  flagMessage_ok :: "string \<Rightarrow> bool"
  getMessage :: "string \<Rightarrow> message option promise"
  sendMessage_ok :: "notice \<Rightarrow> bool"

definition truthy :: "string option \<Rightarrow> bool" where
  "truthy x = (case x of None \<Rightarrow> False | Some s \<Rightarrow> s \<noteq> [])"

definition log :: "effect \<Rightarrow> server \<Rightarrow> server" where
  "log x st = st\<lparr>trace := trace st @ [x]\<rparr>"

text \<open>\<open>s.split(sep)\<close> for a one-character separator: never an empty array.\<close>

fun split :: "char \<Rightarrow> string \<Rightarrow> string list" where
  "split sep [] = [[]]"
| "split sep (c # cs) =
     (if c = sep then [] # split sep cs
      else (c # hd (split sep cs)) # tl (split sep cs))"

text \<open>\<open>msg?.user?.id\<close>\<close>

definition author_id :: "message \<Rightarrow> string option" where
  "author_id m = (case msg_user m of None \<Rightarrow> None | Some u \<Rightarrow> user_id u)"

text \<open>
  \<open>const [type, chId] = String(cid).split(':')\<close>: the first two elements of the
  array; the second is \<open>undefined\<close> when the array has one element.
\<close>

definition target :: "string \<Rightarrow> string \<times> string option" where
  "target cid =
     (let parts = split CHR '':'' cid
      in (hd parts, case tl parts of [] \<Rightarrow> None | chId # _ \<Rightarrow> Some chId))"

text \<open>\<open>x || d\<close> for a string that may be missing.\<close>

definition or_else :: "string option \<Rightarrow> string \<Rightarrow> string" where
  "or_else x d = (case x of None \<Rightarrow> d | Some s \<Rightarrow> if s = [] then d else s)"

definition compose :: "message \<Rightarrow> string \<Rightarrow> notice" where
  "compose msg cid =
     \<lparr>to_type = fst (target cid),
      to_id = snd (target cid),
      author = or_else (author_id msg) ''someone'',
      preview = redact (take 120 (or_else (msg_text msg) []))\<rparr>"

text \<open>
  \<open>postNotice\<close> returns whether its promise is fulfilled or rejected, with the server
  after it. All it does to the store it does before the call of \<open>sendMessage\<close>, the
  only point where it waits. The effect \<open>SendMessage\<close> stands for the delivery
  step, \<open>serverClient.channel(type, chId)\<close> followed by \<open>ch.sendMessage\<close>
  on that channel: it is written when the step is reached, and \<open>sendMessage_ok\<close>
  tells whether the step succeeds (it fails when either call throws or the backend
  rejects the message).
\<close>

definition postNotice :: "env \<Rightarrow> message \<Rightarrow> server \<Rightarrow> unit promise \<times> server" where
  "postNotice e msg st =
     (case (msg_id msg, msg_cid msg) of
        (Some i, Some cid) \<Rightarrow>
          if i = [] \<or> cid = [] then (Resolves (), st)
          else
            let (recent, st1) = wasFlaggedRecently (now_check e) i st in
            if recent then (Resolves (), st1)
            else
              let st2 = rememberFlagged (now_mark e) i st1;
                  n = compose msg cid;
                  st3 = log (SendMessage n) st2
              in (if sendMessage_ok e n then Resolves () else Rejects, st3)
      | _ \<Rightarrow> (Resolves (), st))"

section \<open>The webhook\<close>

text \<open>
  \<open>webhook\<close> below is the handler that \<open>app.post('/webhook', ...)\<close> registers;
  it starts from \<open>req.body\<close> as the middleware before it left it: a
  \<open>Buffer\<close> of the raw bytes, or a value that is no Buffer. The whole route, with
  the body parser in front of the handler, is \<open>endpoint\<close> further down.
\<close>

record response =
  status :: nat
  body :: string

datatype req_body = Buffer string | Parsed payload

definition send :: "nat \<Rightarrow> string \<Rightarrow> response" where
  "send code text = \<lparr>status = code, body = text\<rparr>"

text \<open>
  \<open>Buffer.isBuffer(req.body) ? JSON.parse(req.body.toString('utf8')) : req.body\<close>
\<close>

definition parse_body :: "env \<Rightarrow> req_body \<Rightarrow> payload option" where
  "parse_body e req = (case req of Buffer raw \<Rightarrow> JSON_parse e raw | Parsed p \<Rightarrow> Some p)"

text \<open>The branch of Stream's own flag event: \<open>await postNotice(msg).catch(() => {})\<close>.\<close>

definition on_flagged :: "env \<Rightarrow> message \<Rightarrow> server \<Rightarrow> server" where
  "on_flagged e msg st = snd (postNotice e msg st)"

text \<open>
  The fallback branch for a new message with identifier \<open>i\<close> and text \<open>txt\<close>:
  \<open>flagMessage\<close> and \<open>postNotice\<close> stand in one \<open>try\<close> block, whose
  \<open>catch\<close> writes a warning.
\<close>

definition on_new :: "env \<Rightarrow> message \<Rightarrow> string \<Rightarrow> string \<Rightarrow> server \<Rightarrow> server" where
  "on_new e msg i txt st =
     (if PROFANITY_RE_test txt then
        let (recent, st1) = wasFlaggedRecently (now_guard e) i st in
        if recent then st1
        else
          let st2 = log (FlagMessage i) st1 in
          if flagMessage_ok e i then
            (case postNotice e msg st2 of
               (Resolves u, st3) \<Rightarrow> st3
             | (Rejects, st3) \<Rightarrow> log ConsoleWarn st3)
          else log ConsoleWarn st2
      else st)"

text \<open>The branch of the AI moderation queue, for the message identifier \<open>mid\<close>.\<close>

definition on_item :: "env \<Rightarrow> string \<Rightarrow> server \<Rightarrow> server" where
  "on_item e mid st =
     (let st1 = log (GetMessage mid) st in
      case getMessage e mid of
        Rejects \<Rightarrow> st1
      | Resolves None \<Rightarrow> st1
      | Resolves (Some m) \<Rightarrow>
          if author_id m \<noteq> Some ''system-bot'' then snd (postNotice e m st1) else st1)"

text \<open>
  The guards of the three branches, each giving what its branch goes on with:
  \<open>type === 'message.flagged' && msg?.id\<close>,
  \<open>type === 'message.new' && msg?.id && typeof msg?.text === 'string'\<close>, and
  \<open>it && (it.recommended_action === 'flag' || it.recommended_action === 'remove')
  && it.message_id\<close>.
\<close>

definition flagged_event :: "payload \<Rightarrow> message option" where
  "flagged_event p =
     (case ev_message p of
        None \<Rightarrow> None
      | Some m \<Rightarrow>
          if ev_type p = Some ''message.flagged'' \<and> truthy (msg_id m) then Some m else None)"

definition new_event :: "payload \<Rightarrow> (message \<times> string \<times> string) option" where
  "new_event p =
     (case ev_message p of
        None \<Rightarrow> None
      | Some m \<Rightarrow>
          (case (msg_id m, msg_text m) of
             (Some i, Some txt) \<Rightarrow>
               if ev_type p = Some ''message.new'' \<and> i \<noteq> [] then Some (m, i, txt) else None
           | _ \<Rightarrow> None))"

definition queue_item :: "payload \<Rightarrow> string option" where
  "queue_item p =
     (case ev_item p of
        None \<Rightarrow> None
      | Some it \<Rightarrow>
          if (recommended_action it = Some ''flag'' \<or> recommended_action it = Some ''remove'')
             \<and> truthy (message_id it)
          then message_id it else None)"

definition webhook :: "env \<Rightarrow> req_body \<Rightarrow> server \<Rightarrow> response \<times> server" where
  "webhook e req st =
     (case parse_body e req of
        None \<Rightarrow> (send 200 ''ignored'', log ConsoleError st)
      | Some p \<Rightarrow>
          if Option.bind (ev_message p) author_id = Some ''system-bot''
          then (send 200 ''ignored'', st)
          else
            (case flagged_event p of
               Some m \<Rightarrow> (send 200 ''ok'', on_flagged e m st)
             | None \<Rightarrow>
                 (case new_event p of
                    Some (m, i, txt) \<Rightarrow> (send 200 ''ok'', on_new e m i txt st)
                  | None \<Rightarrow>
                      (case queue_item p of
                         Some mid \<Rightarrow> (send 200 ''ok'', on_item e mid st)
                       | None \<Rightarrow> (send 200 ''ignored'', st)))))"

text \<open>
  The route. \<open>app.use('/webhook', express.raw({ type: '*/*' }))\<close> stands before the
  handler, and the server installs no error-handling middleware. With its defaults
  (\<open>limit: '100kb'\<close>, \<open>inflate: true\<close>) the body parser
  \<^item> leaves a request without a body, or without a Content-Type it can read, alone: the
    handler then finds no Buffer in \<open>req.body\<close>, at most an object without fields
    (\<open>express.json()\<close>, which comes after it, leaves such a request alone too);
  \<^item> refuses a Content-Encoding it does not know with status 415;
  \<^item> refuses a body that it cannot read to its end (the connection is aborted, the
    compressed data are corrupt) with status 400;
  \<^item> refuses a body of more than 102400 bytes, counted after inflation, with status 413;
  \<^item> hands every other body to the handler as a Buffer.

  A refusal goes to the default error handler of Express, which answers with that
  status and an error page of its own; the handler does not run.
\<close>

datatype coding = Identity | Deflate | Gzip | Unsupported string

datatype entity = NoBody | Unreadable | Body string

record request =
  content_type :: "string option"
  content_encoding :: coding
  entity :: entity

definition no_fields :: payload where
  "no_fields = \<lparr>ev_type = None, ev_message = None, ev_item = None\<rparr>"

definition express_raw :: "request \<Rightarrow> nat + req_body" where
  "express_raw r =
     (if entity r = NoBody \<or> content_type r = None then Inr (Parsed no_fields)
      else
        (case content_encoding r of
           Unsupported c \<Rightarrow> Inl 415
         | _ \<Rightarrow>
             (case entity r of
                Body b \<Rightarrow> if length b > 102400 then Inl 413 else Inr (Buffer b)
              | _ \<Rightarrow> Inl 400)))"

definition endpoint :: "(nat \<Rightarrow> string) \<Rightarrow> env \<Rightarrow> request \<Rightarrow> server \<Rightarrow> response \<times> server" where
  "endpoint error_page e r st =
     (case express_raw r of
        Inl code \<Rightarrow> (send code (error_page code), st)
      | Inr b \<Rightarrow> webhook e b st)"

text \<open>The notices whose delivery a run of the server began, in order.\<close>

fun sent :: "effect list \<Rightarrow> notice list" where
  "sent [] = []"
| "sent (SendMessage n # xs) = n # sent xs"
| "sent (x # xs) = sent xs"

text \<open>
  The scenario fixtures: a server that has remembered nothing, a message with all four
  fields, and a request environment whose clock reads \<open>t\<close> throughout and whose
  backend answers as told.
\<close>

definition empty_server :: server where
  "empty_server = \<lparr>flaggedCache = {}, cacheTimes = Map.empty, trace = []\<rparr>"

definition message_of :: "string \<Rightarrow> string \<Rightarrow> string \<Rightarrow> string \<Rightarrow> message" where
  "message_of i cid a txt =
     \<lparr>msg_id = Some i, msg_cid = Some cid,
      msg_user = Some \<lparr>user_id = Some a\<rparr>, msg_text = Some txt\<rparr>"

definition event_of :: "string \<Rightarrow> message \<Rightarrow> payload" where
  "event_of ty m = \<lparr>ev_type = Some ty, ev_message = Some m, ev_item = None\<rparr>"

text \<open>Three request bodies, and what \<open>JSON.parse\<close> makes of them.\<close>

definition flagged_m1 :: string where
  \<open>flagged_m1 = ''{"type":"message.flagged","message":{"id":"m1","cid":"messaging:general","user":{"id":"alice"},"text":"you fuck"}}''\<close>

definition new_m2 :: string where
  \<open>new_m2 = ''{"type":"message.new","message":{"id":"m2","cid":"messaging:general","user":{"id":"bob"},"text":"you fuck"}}''\<close>

definition flagged_bot :: string where
  \<open>flagged_bot = ''{"type":"message.flagged","message":{"id":"m1","cid":"messaging:general","user":{"id":"system-bot"},"text":"you fuck"}}''\<close>

definition known_bodies :: "(string \<times> payload) list" where
  "known_bodies =
     [(flagged_m1, event_of ''message.flagged'' (message_of ''m1'' ''messaging:general'' ''alice'' ''you fuck'')),
      (new_m2, event_of ''message.new'' (message_of ''m2'' ''messaging:general'' ''bob'' ''you fuck'')),
      (flagged_bot, event_of ''message.flagged'' (message_of ''m1'' ''messaging:general'' ''system-bot'' ''you fuck''))]"

definition env_at :: "int \<Rightarrow> bool \<Rightarrow> bool \<Rightarrow> env" where
  "env_at t flag_ok send_ok =
     \<lparr>now_guard = t, now_check = t, now_mark = t,
      JSON_parse = map_of known_bodies,
      flagMessage_ok = (\<lambda>i. flag_ok),
      getMessage = (\<lambda>i. Rejects),
      sendMessage_ok = (\<lambda>n. send_ok)\<rparr>"

text \<open>
  A request that carries the bytes \<open>raw\<close> as JSON, uncompressed, and an error
  page for a refusal, reduced to the name of its status.
\<close>

definition request_of :: "string \<Rightarrow> request" where
  "request_of raw =
     \<lparr>content_type = Some ''application/json'', content_encoding = Identity, entity = Body raw\<rparr>"

definition status_name :: "nat \<Rightarrow> string" where
  "status_name code =
     (if code = 400 then ''Bad Request''
      else if code = 413 then ''Payload Too Large''
      else if code = 415 then ''Unsupported Media Type''
      else ''Internal Server Error'')"

text \<open>A text that does not go on with a word character.\<close>

definition stops :: "string \<Rightarrow> bool" where
  "stops r = (case r of [] \<Rightarrow> True | d # _ \<Rightarrow> \<not> is_word_char d)"

section \<open>Properties\<close>

subsection \<open>The redactor\<close>

lemma is_word_char_canonicalize: "is_word_char (canonicalize c) = is_word_char c"
  by (auto simp: is_word_char_def canonicalize_def Let_def)

lemma list_all_word_canonicalize:
  "list_all is_word_char (map canonicalize s) = list_all is_word_char s"
  by (induction s) (simp_all add: is_word_char_canonicalize)

lemma alternatives_word: "t \<in> set alternatives \<Longrightarrow> list_all is_word_char t \<and> t \<noteq> []"
  by (auto simp: alternatives_def is_word_char_def)

lemma matches_ci_word:
  assumes "matches_ci t s" and "list_all is_word_char t"
  shows "list_all is_word_char (take (length t) s)"
proof -
  from assms(1) have "map canonicalize (take (length t) s) = map canonicalize t"
    by (simp add: matches_ci_def)
  then have "list_all is_word_char (map canonicalize (take (length t) s))
             = list_all is_word_char (map canonicalize t)"
    by simp
  with assms(2) show ?thesis
    by (simp only: list_all_word_canonicalize)
qed


lemma alt_matches_iff:
  assumes w: "w \<noteq> []" "list_all is_word_char w" and r: "stops r"
    and t: "t \<noteq> []" "list_all is_word_char t"
  shows "(matches_ci t (w @ r)
          \<and> word_boundary (is_word_char (last (take (length t) (w @ r)))) (drop (length t) (w @ r)))
         = (map canonicalize t = map canonicalize w)"
proof
  assume a: "matches_ci t (w @ r)
          \<and> word_boundary (is_word_char (last (take (length t) (w @ r)))) (drop (length t) (w @ r))"
  then have aw: "list_all is_word_char (take (length t) (w @ r))"
    using matches_ci_word t(2) by blast
  have le: "length t \<le> length w"
  proof (rule ccontr)
    assume "\<not> length t \<le> length w"
    then have lt: "length w < length t" by simp
    from a have "length t \<le> length (w @ r)" by (simp add: matches_ci_def)
    with lt obtain d r' where r': "r = d # r'" by (cases r) auto
    with r have nd: "\<not> is_word_char d" by (simp add: stops_def)
    from lt r' have "d \<in> set (take (length t) (w @ r))"
      by (cases "length t - length w") auto
    with aw nd show False by (simp add: list_all_iff)
  qed
  have tk: "take (length t) (w @ r) = take (length t) w" using le by simp
  have ne: "take (length t) w \<noteq> []" using t(1) w(1) by (cases t; cases w) auto
  have "is_word_char (last (take (length t) w))"
    using aw tk ne by (metis last_in_set list_all_iff)
  with a tk have nb: "\<not> (case drop (length t) (w @ r) of [] \<Rightarrow> False | c # _ \<Rightarrow> is_word_char c)"
    by (simp add: word_boundary_def)
  have "length t = length w"
  proof (rule ccontr)
    assume "length t \<noteq> length w"
    with le have lt: "length t < length w" by simp
    then obtain x xs where dx: "drop (length t) w = x # xs"
      by (cases "drop (length t) w") auto
    then have "x \<in> set w" by (metis in_set_dropD list.set_intros(1))
    with w(2) have "is_word_char x" by (simp add: list_all_iff)
    with nb dx le show False by simp
  qed
  with a show "map canonicalize t = map canonicalize w"
    by (simp add: matches_ci_def)
next
  assume e: "map canonicalize t = map canonicalize w"
  then have len: "length t = length w" by (metis length_map)
  have "is_word_char (last w)" using w by (simp add: list_all_iff)
  with e len r show "matches_ci t (w @ r)
          \<and> word_boundary (is_word_char (last (take (length t) (w @ r)))) (drop (length t) (w @ r))"
    by (auto simp: matches_ci_def word_boundary_def stops_def split: list.splits)
qed

lemma match_group_word:
  assumes "w \<noteq> []" "list_all is_word_char w" "stops r"
    and "\<forall>t \<in> set ts. t \<noteq> [] \<and> list_all is_word_char t"
  shows "match_group ts (w @ r)
         = (if map canonicalize w \<in> set (map (map canonicalize) ts)
            then Some (length w) else None)"
  using assms(4)
proof (induction ts)
  case Nil
  show ?case by simp
next
  case (Cons t ts)
  then have t: "t \<noteq> []" "list_all is_word_char t" by simp_all
  have len: "map canonicalize t = map canonicalize w \<Longrightarrow> length t = length w"
    by (metis length_map)
  show ?case
    using Cons alt_matches_iff [OF assms(1) assms(2) assms(3) t] len
    by auto
qed

lemma match_at_word:
  assumes "w \<noteq> []" "list_all is_word_char w" "stops r"
  shows "match_at False (w @ r) = (if is_profane w then Some (length w) else None)"
proof -
  have "word_boundary False (w @ r)"
    using assms(1,2) by (cases w) (simp_all add: word_boundary_def)
  then show ?thesis
    using match_group_word [OF assms, of alternatives] alternatives_word
    by (simp add: match_at_def is_profane_def)
qed


lemma stops_dropWhile: "stops (dropWhile is_word_char s)"
  by (induction s) (simp_all add: stops_def)

lemma match_at_nonword: "\<not> is_word_char d \<Longrightarrow> match_at pw (d # cs) = None"
proof -
  assume nd: "\<not> is_word_char d"
  have "match_group ts (d # cs) = None" if "\<forall>t \<in> set ts. t \<noteq> [] \<and> list_all is_word_char t" for ts
    using that
  proof (induction ts)
    case Nil
    show ?case by simp
  next
    case (Cons t ts)
    then obtain x xs where t: "t = x # xs" "is_word_char x" by (cases t) auto
    have "\<not> matches_ci t (d # cs)"
    proof
      assume "matches_ci t (d # cs)"
      with t have "canonicalize d = canonicalize x" by (simp add: matches_ci_def)
      then have "is_word_char d = is_word_char x" by (metis is_word_char_canonicalize)
      with nd t show False by simp
    qed
    with Cons show ?case by simp
  qed
  then show ?thesis
    using alternatives_word by (simp add: match_at_def)
qed

lemma match_at_inside: "is_word_char c \<Longrightarrow> match_at True (c # cs) = None"
  by (simp add: match_at_def word_boundary_def)

lemma takeWhile_after_dropWhile: "takeWhile P (dropWhile P xs) = []"
  by (induction xs) simp_all

lemma take_word_split:
  "is_word_char c \<Longrightarrow>
   c # cs = (c # takeWhile is_word_char cs) @ dropWhile is_word_char cs"
  by simp

lemma replace_from_words:
  "replace_from pw s =
     (if pw then takeWhile is_word_char s @ redact_words (dropWhile is_word_char s)
      else redact_words s)"
proof (induction s arbitrary: pw rule: length_induct)
  case (1 s)
  show ?case
  proof (cases s)
    case Nil
    then show ?thesis by simp
  next
    case (Cons c cs)
    have IH: "replace_from q cs =
       (if q then takeWhile is_word_char cs @ redact_words (dropWhile is_word_char cs)
        else redact_words cs)" for q
      using 1 Cons by simp
    show ?thesis
    proof (cases "is_word_char c")
      case False
      then show ?thesis using Cons IH [of False] by (simp add: match_at_nonword)
    next
      case wc: True
      show ?thesis
      proof (cases pw)
        case True
        then show ?thesis using Cons wc IH [of True] by (simp add: match_at_inside)
      next
        case False
        let ?w = "c # takeWhile is_word_char cs"
        let ?r = "dropWhile is_word_char cs"
        have w: "?w \<noteq> []" "list_all is_word_char ?w"
          using wc by (simp_all add: list_all_iff) (meson set_takeWhileD)
        have m: "match_at False (c # cs) = (if is_profane ?w then Some (length ?w) else None)"
          using match_at_word [OF w stops_dropWhile [of cs]] by simp
        show ?thesis
        proof (cases "is_profane ?w")
          case np: False
          then show ?thesis
            using Cons wc False m IH [of True] by (simp add: masked_def)
        next
          case p: True
          have d: "drop (length ?w - 1) cs = ?r"
            by (simp add: dropWhile_eq_drop)
          have l: "is_word_char ((c # cs) ! (length ?w - 1))"
          proof -
            have "(c # cs) ! (length ?w - 1) = ?w ! (length ?w - 1)"
              by (metis (no_types, lifting) One_nat_def diff_Suc_1 length_Cons lessI nth_append take_word_split wc)
            then show ?thesis using w(2) by (simp add: list_all_length)
          qed
          have len: "length ?r < length s" using Cons
            by (simp add: length_dropWhile_le less_Suc_eq_le)
          have "replace_from True ?r = redact_words ?r"
            using 1 len by (simp add: takeWhile_after_dropWhile)
          then show ?thesis
            using Cons wc False m p d l by (simp add: masked_def)
        qed
      qed
    qed
  qed
qed

lemma redact_refines: "redact s = redact_words s"
  by (simp add: redact_def replace_from_words)


lemma stops_redact_words: "stops r \<Longrightarrow> stops (redact_words r)"
  by (cases r) (simp_all add: stops_def)

lemma redact_words_word:
  assumes "is_word_char c" "list_all is_word_char w" "stops r"
  shows "redact_words ((c # w) @ r) = masked (c # w) @ redact_words r"
proof -
  have t: "takeWhile is_word_char (w @ r) = w"
    using assms(2,3) by (cases r) (simp_all add: stops_def list_all_iff)
  have d: "dropWhile is_word_char (w @ r) = r"
    using assms(2,3) by (cases r) (simp_all add: stops_def list_all_iff)
  show ?thesis using assms(1) t d by simp
qed

lemma not_profane_short: "length w < 4 \<Longrightarrow> \<not> is_profane w"
proof
  assume l: "length w < 4" and "is_profane w"
  then obtain t where "t \<in> set alternatives" "map canonicalize w = map canonicalize t"
    by (auto simp: is_profane_def)
  then have "length w = length t" "4 \<le> length t"
    by (metis length_map, auto simp: alternatives_def)
  with l show False by simp
qed

lemma redact_words_masked:
  assumes "is_word_char c" "stops r"
  shows "redact_words (c # ''***'' @ r) = c # ''***'' @ redact_words r"
proof -
  have s: "\<not> is_word_char CHR ''*''" by (simp add: is_word_char_def)
  have "\<not> is_profane [c]" by (simp add: not_profane_short)
  then show ?thesis using assms(1) s by (simp add: masked_def)
qed

lemma redact_words_idem: "redact_words (redact_words s) = redact_words s"
proof (induction s rule: redact_words.induct)
  case 1
  show ?case by simp
next
  case (2 c cs)
  show ?case
  proof (cases "is_word_char c")
    case False
    with 2 show ?thesis by simp
  next
    case True
    let ?w = "takeWhile is_word_char cs"
    let ?r = "dropWhile is_word_char cs"
    have IH: "redact_words (redact_words ?r) = redact_words ?r"
      using 2 True by simp
    have st: "stops (redact_words ?r)"
      by (rule stops_redact_words [OF stops_dropWhile])
    have aw: "list_all is_word_char ?w"
      by (simp add: list_all_iff) (meson set_takeWhileD)
    have step: "redact_words (c # cs) = masked (c # ?w) @ redact_words ?r"
      using True by simp
    show ?thesis
    proof (cases "is_profane (c # ?w)")
      case False
      then have "redact_words (redact_words (c # cs))
                 = redact_words ((c # ?w) @ redact_words ?r)"
        using step by (simp add: masked_def)
      also have "\<dots> = masked (c # ?w) @ redact_words (redact_words ?r)"
        by (rule redact_words_word [OF True aw st])
      finally show ?thesis using IH step by simp
    next
      case True
      then have "redact_words (redact_words (c # cs))
                 = redact_words (c # ''***'' @ redact_words ?r)"
        using step by (simp add: masked_def)
      also have "\<dots> = c # ''***'' @ redact_words (redact_words ?r)"
        by (rule redact_words_masked [OF \<open>is_word_char c\<close> st])
      finally show ?thesis using IH step True by (simp add: masked_def)
    qed
  qed
qed



lemma redact_words_append:
  "pre = [] \<or> \<not> is_word_char (last pre) \<Longrightarrow>
   redact_words (pre @ x) = redact_words pre @ redact_words x"
proof (induction pre rule: redact_words.induct)
  case 1
  show ?case by simp
next
  case (2 c cs)
  show ?case
  proof (cases "is_word_char c")
    case False
    with 2 show ?thesis by (cases cs) auto
  next
    case True
    with "2.prems" have ne: "cs \<noteq> []" and nl: "\<not> is_word_char (last cs)"
      by (auto split: if_splits)
    then have ex: "last cs \<in> set cs" by simp
    have t: "takeWhile is_word_char (cs @ x) = takeWhile is_word_char cs"
      using ex nl by (rule takeWhile_append1)
    have d: "dropWhile is_word_char (cs @ x) = dropWhile is_word_char cs @ x"
      using ex nl by (rule dropWhile_append1)
    have dn: "dropWhile is_word_char cs \<noteq> []"
      using ex nl by (metis dropWhile_eq_Nil_conv)
    have "last (dropWhile is_word_char cs) = last cs"
      using dn by (metis last_appendR takeWhile_dropWhile_id)
    with nl have "redact_words (dropWhile is_word_char cs @ x)
                  = redact_words (dropWhile is_word_char cs) @ redact_words x"
      using "2.IH"(1) [OF True] by simp
    with True t d show ?thesis by simp
  qed
qed

text \<open>
  C8. The redactor is the word-by-word redactor of the contract, for every text: each
  maximal run of word characters that is a profane token, letter case apart, becomes
  its first character and three asterisks (four characters, where the token had at
  least four), every other run and every character between runs is copied. So a word
  \<open>w\<close> that stands between a text \<open>pre\<close> not ending in a word character and a
  text \<open>r\<close> not starting with one is masked when profane and kept otherwise, and
  the texts around it are redacted on their own.
\<close>

theorem redact_whole_words:
  "redact s = redact_words s
   \<and> (is_profane w \<longrightarrow> masked w = hd w # ''***'' \<and> length (masked w) = 4 \<and> 4 \<le> length w)
   \<and> (\<not> is_profane w \<longrightarrow> masked w = w)
   \<and> ((pre = [] \<or> \<not> is_word_char (last pre)) \<and> w \<noteq> [] \<and> list_all is_word_char w \<and> stops r
        \<longrightarrow> redact (pre @ w @ r) = redact pre @ masked w @ redact r)"
proof -
  have a: "4 \<le> length w" if "is_profane w"
    using that not_profane_short [of w] by (cases "length w < 4") simp_all
  have b: "redact (pre @ w @ r) = redact pre @ masked w @ redact r"
    if h1: "pre = [] \<or> \<not> is_word_char (last pre)" and h2: "w \<noteq> []"
      and h3: "list_all is_word_char w" and h4: "stops r"
  proof -
    obtain c w' where w: "w = c # w'" using h2 by (cases w) auto
    with h3 have "is_word_char c" "list_all is_word_char w'" by simp_all
    then have "redact_words (w @ r) = masked w @ redact_words r"
      using redact_words_word [of c w' r] h4 w by simp
    then show ?thesis
      using redact_words_append [OF h1, of "w @ r"] by (simp add: redact_refines)
  qed
  show ?thesis using a b by (simp add: redact_refines masked_def)
qed

theorem redact_whole_words_witness:
  "redact ''You FUCK, ok'' = ''You F***, ok''
   \<and> is_profane ''FUCK'' \<and> masked ''FUCK'' = ''F***''
   \<and> \<not> is_profane ''fucking'' \<and> masked ''fucking'' = ''fucking''"
proof -
  have p: "is_profane ''FUCK''"
    by code_simp
  have n: "\<not> is_profane ''fucking''"
    by code_simp
  have c: "(''You '' = [] \<or> \<not> is_word_char (last ''You '')) \<and> ''FUCK'' \<noteq> []
           \<and> list_all is_word_char ''FUCK'' \<and> stops '', ok''"
    by (simp add: is_word_char_def stops_def)
  have y: "redact ''You '' = ''You ''" and k: "redact '', ok'' = '', ok''"
    by code_simp+
  have "masked ''FUCK'' = hd ''FUCK'' # ''***''"
    using redact_whole_words [of "[]" "''FUCK''" "[]" "[]"] p by blast
  then have m: "masked ''FUCK'' = ''F***''" by simp
  have "redact (''You '' @ ''FUCK'' @ '', ok'') = redact ''You '' @ masked ''FUCK'' @ redact '', ok''"
    using redact_whole_words [of "[]" "''FUCK''" "''You ''" "'', ok''"] c by blast
  with m y k have "redact ''You FUCK, ok'' = ''You F***, ok''" by simp
  moreover have "masked ''fucking'' = ''fucking''"
    using redact_whole_words [of "[]" "''fucking''" "[]" "[]"] n by blast
  moreover note m
  ultimately show ?thesis using p n by simp
qed

text \<open>
  C9. Redacting a redacted text changes nothing.
\<close>

theorem redact_idempotent: "redact (redact s) = redact s"
  by (simp add: redact_refines redact_words_idem)

subsection \<open>Flag memory\<close>



lemma wasFlaggedRecently_trace: "trace (snd (wasFlaggedRecently now i st)) = trace st"
  by (simp add: wasFlaggedRecently_def split: option.splits)

text \<open>
  The reading 0 gets into the store only when \<open>rememberFlagged\<close> runs while the
  clock reads 0: neither operation puts it there otherwise.
\<close>

lemma rememberFlagged_no_zero:
  "now \<noteq> 0 \<Longrightarrow> cacheTimes st j \<noteq> Some 0 \<Longrightarrow> cacheTimes (rememberFlagged now i st) j \<noteq> Some 0"
  by (simp add: rememberFlagged_def)

lemma wasFlaggedRecently_no_zero:
  "cacheTimes st j \<noteq> Some 0 \<Longrightarrow> cacheTimes (snd (wasFlaggedRecently now i st)) j \<noteq> Some 0"
  by (simp add: wasFlaggedRecently_def split: option.splits)




subsection \<open>The notice dispatcher\<close>

lemma postNotice_fresh:
  assumes "msg_id msg = Some i" "i \<noteq> []" "msg_cid msg = Some cid" "cid \<noteq> []"
    and "fst (wasFlaggedRecently (now_check e) i st) = False"
  shows "postNotice e msg st =
           (if sendMessage_ok e (compose msg cid) then Resolves () else Rejects,
            log (SendMessage (compose msg cid))
              (rememberFlagged (now_mark e) i (snd (wasFlaggedRecently (now_check e) i st))))"
  using assms by (simp add: postNotice_def Let_def case_prod_beta)


lemma sent_append: "sent (xs @ ys) = sent xs @ sent ys"
  by (induction xs rule: sent.induct) simp_all

lemma postNotice_trace:
  "trace (snd (postNotice e m st)) = trace st
   \<or> (\<exists>i t n. trace (snd (postNotice e m st)) = trace st @ [Remember i t, SendMessage n])"
  by (auto simp: postNotice_def wasFlaggedRecently_def rememberFlagged_def log_def Let_def
      split: option.splits if_splits)

lemma postNotice_no_zero:
  "now_mark e \<noteq> 0 \<Longrightarrow> cacheTimes st j \<noteq> Some 0
   \<Longrightarrow> cacheTimes (snd (postNotice e m st)) j \<noteq> Some 0"
  by (auto simp: postNotice_def wasFlaggedRecently_def rememberFlagged_def log_def Let_def
      split: option.splits if_splits)

lemmas fixture_defs = empty_server_def env_at_def message_of_def event_of_def

lemma parse_fixtures:
  "parse_body (env_at t a b) (Buffer flagged_m1)
     = Some (event_of ''message.flagged'' (message_of ''m1'' ''messaging:general'' ''alice'' ''you fuck''))"
  "parse_body (env_at t a b) (Buffer new_m2)
     = Some (event_of ''message.new'' (message_of ''m2'' ''messaging:general'' ''bob'' ''you fuck''))"
  "parse_body (env_at t a b) (Buffer flagged_bot)
     = Some (event_of ''message.flagged'' (message_of ''m1'' ''messaging:general'' ''system-bot'' ''you fuck''))"
  "JSON_parse (env_at t a b) ''{oops'' = None"
  by (simp_all add: parse_body_def env_at_def known_bodies_def flagged_m1_def new_m2_def
      flagged_bot_def)

lemma preview_you: "redact (take 120 ''you fuck'') = ''you f***''"
  by code_simp

lemma target_general: "target ''messaging:general'' = (''messaging'', Some ''general'')"
  by (simp add: target_def)

lemma compose_scenario:
  "compose (message_of i ''messaging:general'' ''alice'' ''you fuck'') ''messaging:general''
   = \<lparr>to_type = ''messaging'', to_id = Some ''general'', author = ''alice'',
      preview = ''you f***''\<rparr>"
  using preview_you
  by (simp add: compose_def target_general message_of_def author_id_def or_else_def)

text \<open>
  C10. Remembering an id while the clock reads 0 stores the reading 0; a lookup that
  follows, at whatever clock reading, answers false and leaves the store as it is, the
  entry still in place. So two calls of \<open>postNotice\<close> for the message \<open>m1\<close>,
  one after the other while the clock reads 0, send the notice twice.
\<close>

theorem remember_at_zero_not_recent:
  "wasFlaggedRecently now i (rememberFlagged 0 i st) = (False, rememberFlagged 0 i st)
   \<and> cacheTimes (rememberFlagged 0 i st) i = Some 0
   \<and> i \<in> flaggedCache (rememberFlagged 0 i st)
   \<and> sent (trace (snd (postNotice (env_at 0 True True)
           (message_of ''m1'' ''messaging:general'' ''alice'' ''you fuck'')
           (snd (postNotice (env_at 0 True True)
              (message_of ''m1'' ''messaging:general'' ''alice'' ''you fuck'') empty_server)))))
       = [\<lparr>to_type = ''messaging'', to_id = Some ''general'', author = ''alice'',
           preview = ''you f***''\<rparr>,
          \<lparr>to_type = ''messaging'', to_id = Some ''general'', author = ''alice'',
           preview = ''you f***''\<rparr>]"
proof -
  let ?m = "message_of ''m1'' ''messaging:general'' ''alice'' ''you fuck''"
  let ?n = "compose ?m ''messaging:general''"
  have p1: "snd (postNotice (env_at 0 True True) ?m empty_server)
     = log (SendMessage ?n) (rememberFlagged 0 ''m1'' empty_server)"
    by (simp add: postNotice_def wasFlaggedRecently_def Let_def fixture_defs)
  have p2: "snd (postNotice (env_at 0 True True) ?m
              (log (SendMessage ?n) (rememberFlagged 0 ''m1'' empty_server)))
     = log (SendMessage ?n)
         (rememberFlagged 0 ''m1'' (log (SendMessage ?n) (rememberFlagged 0 ''m1'' empty_server)))"
    by (simp add: postNotice_def wasFlaggedRecently_def rememberFlagged_def log_def Let_def
        fixture_defs)
  have "sent (trace (snd (postNotice (env_at 0 True True) ?m
           (snd (postNotice (env_at 0 True True) ?m empty_server))))) = [?n, ?n]"
    unfolding p1 unfolding p2
    by (simp add: log_def rememberFlagged_def empty_server_def)
  then show ?thesis
    by (simp add: compose_scenario wasFlaggedRecently_def rememberFlagged_def)
qed




lemma split_no_sep: "sep \<notin> set s \<Longrightarrow> split sep s = [s]"
  by (induction s) auto

lemma split_first_sep: "sep \<notin> set ty \<Longrightarrow> split sep (ty @ sep # rest) = ty # split sep rest"
  by (induction ty) auto

lemma hd_split: "hd (split sep s) = takeWhile (\<lambda>c. c \<noteq> sep) s"
  by (induction s) auto

lemma takeWhile_no_sep: "sep \<notin> set s \<Longrightarrow> takeWhile (\<lambda>c. c \<noteq> sep) s = s"
  by (induction s) auto

lemma split_not_Nil: "split sep s \<noteq> []"
  by (cases s) auto

lemma target_segments:
  "target cid =
     (takeWhile (\<lambda>c. c \<noteq> CHR '':'') cid,
      if CHR '':'' \<in> set cid
      then Some (takeWhile (\<lambda>c. c \<noteq> CHR '':'') (tl (dropWhile (\<lambda>c. c \<noteq> CHR '':'') cid)))
      else None)"
proof (cases "CHR '':'' \<in> set cid")
  case False
  then show ?thesis by (simp add: target_def split_no_sep takeWhile_no_sep)
next
  case True
  let ?ty = "takeWhile (\<lambda>c. c \<noteq> CHR '':'') cid"
  let ?d = "dropWhile (\<lambda>c. c \<noteq> CHR '':'') cid"
  from True have "?d \<noteq> []" by (simp add: dropWhile_eq_Nil_conv)
  moreover have "?d \<noteq> [] \<Longrightarrow> hd ?d = CHR '':''"
    using hd_dropWhile [of "\<lambda>c. c \<noteq> CHR '':''" cid] by simp
  ultimately have d: "?d = CHR '':'' # tl ?d" by (cases ?d) auto
  have "cid = ?ty @ CHR '':'' # tl ?d"
    using d takeWhile_dropWhile_id [of "\<lambda>c. c \<noteq> CHR '':''" cid] by simp
  moreover have "CHR '':'' \<notin> set ?ty" by (auto dest: set_takeWhileD)
  ultimately have "split CHR '':'' cid = ?ty # split CHR '':'' (tl ?d)"
    using split_first_sep [of "CHR '':''" ?ty "tl ?d"] by simp
  then show ?thesis
    using True split_not_Nil [of "CHR '':''" "tl ?d"] hd_split [of "CHR '':''" "tl ?d"]
    by (cases "split CHR '':'' (tl ?d)") (simp_all add: target_def)
qed

text \<open>
  For the conversation id \<open>messaging:a:b\<close> the notice goes to the channel \<open>a\<close>
  of type \<open>messaging\<close>, while the text after the first colon is \<open>a:b\<close>.
\<close>

theorem notice_target_counterexample:
  "sent (trace (snd (postNotice (env_at 1000 True True)
      (message_of ''m1'' ''messaging:a:b'' ''alice'' ''hi'') empty_server)))
   = [\<lparr>to_type = ''messaging'', to_id = Some ''a'', author = ''alice'', preview = ''hi''\<rparr>]
   \<and> tl (dropWhile (\<lambda>c. c \<noteq> CHR '':'') ''messaging:a:b'') = ''a:b''"
proof -
  have "redact (take 120 ''hi'') = ''hi''" by code_simp
  then show ?thesis
    by (simp add: postNotice_def wasFlaggedRecently_def rememberFlagged_def log_def compose_def
        target_def author_id_def or_else_def fixture_defs)
qed

text \<open>
  C6, as the code has it. A delivered notice goes to the conversation whose type is the
  text before the first colon of the conversation id and whose channel id is the text
  between the first colon and the second (up to the end when there is no second colon,
  and missing when there is no colon at all). When the conversation id has one colon,
  the channel id is all that follows it.
\<close>

theorem notice_target_first_two_segments:
  assumes "msg_id msg = Some i" "i \<noteq> []" "msg_cid msg = Some cid" "cid \<noteq> []"
    and "fst (wasFlaggedRecently (now_check e) i st) = False"
  shows "sent (trace (snd (postNotice e msg st))) = sent (trace st) @ [compose msg cid]
     \<and> to_type (compose msg cid) = takeWhile (\<lambda>c. c \<noteq> CHR '':'') cid
     \<and> to_id (compose msg cid) =
         (if CHR '':'' \<in> set cid
          then Some (takeWhile (\<lambda>c. c \<noteq> CHR '':'') (tl (dropWhile (\<lambda>c. c \<noteq> CHR '':'') cid)))
          else None)
     \<and> (CHR '':'' \<in> set cid \<and> CHR '':'' \<notin> set (tl (dropWhile (\<lambda>c. c \<noteq> CHR '':'') cid))
          \<longrightarrow> to_id (compose msg cid) = Some (tl (dropWhile (\<lambda>c. c \<noteq> CHR '':'') cid)))"
proof -
  have "sent (trace (snd (postNotice e msg st))) = sent (trace st) @ [compose msg cid]"
    using postNotice_fresh [OF assms]
    by (simp add: log_def rememberFlagged_def wasFlaggedRecently_trace sent_append)
  then show ?thesis
    by (simp add: compose_def target_segments takeWhile_no_sep)
qed

theorem notice_target_first_two_segments_witness:
  "msg_id (message_of ''m1'' ''messaging:general'' ''alice'' ''you fuck'') = Some ''m1''
   \<and> msg_cid (message_of ''m1'' ''messaging:general'' ''alice'' ''you fuck'') = Some ''messaging:general''
   \<and> fst (wasFlaggedRecently (now_check (env_at 1000 True True)) ''m1'' empty_server) = False
   \<and> CHR '':'' \<in> set ''messaging:general''
   \<and> CHR '':'' \<notin> set (tl (dropWhile (\<lambda>c. c \<noteq> CHR '':'') ''messaging:general''))
   \<and> to_type (compose (message_of ''m1'' ''messaging:general'' ''alice'' ''you fuck'') ''messaging:general'')
       = ''messaging''
   \<and> to_id (compose (message_of ''m1'' ''messaging:general'' ''alice'' ''you fuck'') ''messaging:general'')
       = Some ''general''"
proof -
  let ?m = "message_of ''m1'' ''messaging:general'' ''alice'' ''you fuck''"
  have h1: "msg_id ?m = Some ''m1''" and h3: "msg_cid ?m = Some ''messaging:general''"
    by (simp_all add: message_of_def)
  have h2: "''m1'' \<noteq> []" and h4: "''messaging:general'' \<noteq> []" by simp_all
  have h5: "fst (wasFlaggedRecently (now_check (env_at 1000 True True)) ''m1'' empty_server) = False"
    by (simp add: wasFlaggedRecently_def empty_server_def)
  have c: "CHR '':'' \<in> set ''messaging:general''"
    "CHR '':'' \<notin> set (tl (dropWhile (\<lambda>c. c \<noteq> CHR '':'') ''messaging:general''))"
    "tl (dropWhile (\<lambda>c. c \<noteq> CHR '':'') ''messaging:general'') = ''general''"
    "takeWhile (\<lambda>c. c \<noteq> CHR '':'') ''messaging:general'' = ''messaging''"
    by simp_all
  show ?thesis
    using notice_target_first_two_segments [OF h1 h2 h3 h4 h5] h1 h3 h5 c by simp
qed

subsection \<open>The webhook\<close>

lemma profane_you: "PROFANITY_RE_test ''you fuck''"
  by code_simp

lemma new_not_flagged: "new_event p = Some x \<Longrightarrow> flagged_event p = None"
  by (auto simp: new_event_def flagged_event_def split: option.splits if_splits)

text \<open>
  A new message \<open>m2\<close> with a profane text, not flagged before, while
  \<open>flagMessage\<close> fails: the server asks for the flag, writes a warning, and sends
  no notice.
\<close>

theorem fallback_flag_failure_counterexample:
  "new_event (event_of ''message.new'' (message_of ''m2'' ''messaging:general'' ''bob'' ''you fuck''))
     = Some (message_of ''m2'' ''messaging:general'' ''bob'' ''you fuck'', ''m2'', ''you fuck'')
   \<and> PROFANITY_RE_test ''you fuck''
   \<and> fst (wasFlaggedRecently 1000 ''m2'' empty_server) = False
   \<and> trace (snd (webhook (env_at 1000 False True)
        (Buffer new_m2)
        empty_server)) = [FlagMessage ''m2'', ConsoleWarn]
   \<and> sent (trace (snd (webhook (env_at 1000 False True)
        (Buffer new_m2)
        empty_server))) = []"
proof -
  let ?m = "message_of ''m2'' ''messaging:general'' ''bob'' ''you fuck''"
  have n: "new_event (event_of ''message.new'' ?m) = Some (?m, ''m2'', ''you fuck'')"
    by (simp add: new_event_def message_of_def event_of_def)
  have "webhook (env_at 1000 False True) (Buffer new_m2) empty_server
        = (send 200 ''ok'', on_new (env_at 1000 False True) ?m ''m2'' ''you fuck'' empty_server)"
    using n new_not_flagged [OF n]
    by (simp add: webhook_def parse_fixtures author_id_def message_of_def event_of_def)
  then show ?thesis
    using profane_you n
    by (simp add: on_new_def wasFlaggedRecently_def log_def empty_server_def env_at_def)
qed

text \<open>
  C2, as the code has it. For a new message with an identifier and a text that matches
  the profanity pattern, not recently flagged, the answer is 200 \<open>ok\<close> and the
  first thing the request does is the call of \<open>flagMessage\<close>. When that call
  fails, a warning is written, \<open>postNotice\<close> is not run and no notice is sent; when
  it succeeds, \<open>postNotice\<close> runs next, and a warning is written if it fails.
\<close>

theorem fallback_flag_then_notice:
  assumes "parse_body e req = Some p"
    and "Option.bind (ev_message p) author_id \<noteq> Some ''system-bot''"
    and "new_event p = Some (m, i, txt)"
    and "PROFANITY_RE_test txt"
    and "fst (wasFlaggedRecently (now_guard e) i st) = False"
  shows "fst (webhook e req st) = send 200 ''ok''
     \<and> (\<not> flagMessage_ok e i \<longrightarrow>
          snd (webhook e req st)
            = log ConsoleWarn (log (FlagMessage i) (snd (wasFlaggedRecently (now_guard e) i st)))
          \<and> sent (trace (snd (webhook e req st))) = sent (trace st))
     \<and> (flagMessage_ok e i \<longrightarrow>
          snd (webhook e req st)
            = (case postNotice e m (log (FlagMessage i) (snd (wasFlaggedRecently (now_guard e) i st))) of
                 (Resolves u, st3) \<Rightarrow> st3
               | (Rejects, st3) \<Rightarrow> log ConsoleWarn st3))
     \<and> (\<exists>rest. trace (snd (webhook e req st)) = trace st @ FlagMessage i # rest)"
proof -
  let ?st1 = "snd (wasFlaggedRecently (now_guard e) i st)"
  let ?st2 = "log (FlagMessage i) ?st1"
  have t2: "trace ?st2 = trace st @ [FlagMessage i]"
    by (simp add: log_def wasFlaggedRecently_trace)
  have ex: "\<exists>rest. trace (case postNotice e m ?st2 of
                 (Resolves u, st3) \<Rightarrow> st3
               | (Rejects, st3) \<Rightarrow> log ConsoleWarn st3) = trace st @ FlagMessage i # rest"
    using postNotice_trace [of e m ?st2] t2
    by (cases "postNotice e m ?st2") (auto simp: log_def split: promise.splits)
  have ex': "\<exists>rest. trace (log ConsoleWarn ?st2) = trace st @ FlagMessage i # rest"
    using t2 by (simp add: log_def)
  have w: "webhook e req st = (send 200 ''ok'', on_new e m i txt st)"
    using assms(1-3) new_not_flagged [OF assms(3)] by (simp add: webhook_def)
  have "sent (trace (log ConsoleWarn (log (FlagMessage i) (snd (wasFlaggedRecently (now_guard e) i st)))))
        = sent (trace st)"
    by (simp add: log_def wasFlaggedRecently_trace sent_append)
  then show ?thesis
    using w assms(4,5) ex ex'
    by (cases "flagMessage_ok e i") (simp_all add: on_new_def case_prod_beta Let_def)
qed

theorem fallback_flag_then_notice_witness:
  "parse_body (env_at 1000 True True)
      (Buffer new_m2)
     = Some (event_of ''message.new'' (message_of ''m2'' ''messaging:general'' ''bob'' ''you fuck''))
   \<and> new_event (event_of ''message.new'' (message_of ''m2'' ''messaging:general'' ''bob'' ''you fuck''))
     = Some (message_of ''m2'' ''messaging:general'' ''bob'' ''you fuck'', ''m2'', ''you fuck'')
   \<and> PROFANITY_RE_test ''you fuck''
   \<and> fst (wasFlaggedRecently (now_guard (env_at 1000 True True)) ''m2'' empty_server) = False
   \<and> flagMessage_ok (env_at 1000 True True) ''m2''
   \<and> fst (webhook (env_at 1000 True True)
        (Buffer new_m2)
        empty_server) = send 200 ''ok''
   \<and> trace (snd (webhook (env_at 1000 True True)
        (Buffer new_m2)
        empty_server))
      = [FlagMessage ''m2'',
         Remember ''m2'' 1000,
         SendMessage \<lparr>to_type = ''messaging'', to_id = Some ''general'', author = ''bob'',
           preview = ''you f***''\<rparr>]
   \<and> \<not> flagMessage_ok (env_at 1000 False True) ''m2''
   \<and> trace (snd (webhook (env_at 1000 False True) (Buffer new_m2) empty_server))
      = [FlagMessage ''m2'', ConsoleWarn]"
proof -
  let ?e = "env_at 1000 True True"
  let ?f = "env_at 1000 False True"
  let ?m = "message_of ''m2'' ''messaging:general'' ''bob'' ''you fuck''"
  let ?p = "event_of ''message.new'' ?m"
  have h1: "parse_body ?e (Buffer new_m2) = Some ?p" by (rule parse_fixtures)
  have h2: "Option.bind (ev_message ?p) author_id \<noteq> Some ''system-bot''"
    by (simp add: fixture_defs author_id_def)
  have h3: "new_event ?p = Some (?m, ''m2'', ''you fuck'')"
    by (simp add: new_event_def fixture_defs)
  have h5: "fst (wasFlaggedRecently (now_guard ?e) ''m2'' empty_server) = False"
    by (simp add: wasFlaggedRecently_def empty_server_def)
  have s1: "snd (wasFlaggedRecently (now_guard ?e) ''m2'' empty_server) = empty_server"
    by (simp add: wasFlaggedRecently_def empty_server_def)
  have ok: "flagMessage_ok ?e ''m2''" by (simp add: env_at_def)
  have r: "postNotice ?e ?m (log (FlagMessage ''m2'') empty_server)
      = (Resolves (), log (SendMessage (compose ?m ''messaging:general''))
           (rememberFlagged 1000 ''m2'' (log (FlagMessage ''m2'') empty_server)))"
    by (simp add: postNotice_def wasFlaggedRecently_def log_def Let_def fixture_defs)
  have c: "compose ?m ''messaging:general''
     = \<lparr>to_type = ''messaging'', to_id = Some ''general'', author = ''bob'',
        preview = ''you f***''\<rparr>"
    using preview_you
    by (simp add: compose_def target_general message_of_def author_id_def or_else_def)
  have f1: "parse_body ?f (Buffer new_m2) = Some ?p" by (rule parse_fixtures)
  have f5: "fst (wasFlaggedRecently (now_guard ?f) ''m2'' empty_server) = False"
    by (simp add: wasFlaggedRecently_def empty_server_def)
  have t1: "snd (wasFlaggedRecently (now_guard ?f) ''m2'' empty_server) = empty_server"
    by (simp add: wasFlaggedRecently_def empty_server_def)
  have no: "\<not> flagMessage_ok ?f ''m2''" by (simp add: env_at_def)
  from fallback_flag_then_notice [OF f1 h2 h3 profane_you f5] no t1
  have "snd (webhook ?f (Buffer new_m2) empty_server)
        = log ConsoleWarn (log (FlagMessage ''m2'') empty_server)"
    by simp
  then have g: "trace (snd (webhook ?f (Buffer new_m2) empty_server))
                = [FlagMessage ''m2'', ConsoleWarn]"
    by (simp add: log_def empty_server_def)
  from fallback_flag_then_notice [OF h1 h2 h3 profane_you h5] ok s1
  have "fst (webhook ?e (Buffer new_m2) empty_server) = send 200 ''ok''"
    and "snd (webhook ?e (Buffer new_m2) empty_server)
         = (case postNotice ?e ?m (log (FlagMessage ''m2'') empty_server) of
              (Resolves u, st3) \<Rightarrow> st3 | (Rejects, st3) \<Rightarrow> log ConsoleWarn st3)"
    by simp_all
  then show ?thesis
    using h1 h3 h5 ok no g profane_you r c
    by (simp add: log_def rememberFlagged_def empty_server_def)
qed

lemma webhook_answers_200:
  "status (fst (webhook e req st)) = 200
   \<and> (body (fst (webhook e req st)) = ''ok'' \<or> body (fst (webhook e req st)) = ''ignored'')"
  by (simp add: webhook_def send_def split: option.splits prod.splits)

lemma webhook_parse_failure:
  "JSON_parse e raw = None \<Longrightarrow> webhook e (Buffer raw) st = (send 200 ''ignored'', log ConsoleError st)"
  by (simp add: webhook_def parse_body_def)

text \<open>
  A request whose body, JSON or not, has 102401 bytes is answered with status 413, and
  the flag event for \<open>m1\<close> sent with the Content-Encoding \<open>compress\<close> is
  answered with status 415; neither reaches the handler.
\<close>

theorem endpoint_refusal_counterexample:
  "endpoint status_name (env_at 1000 True True) (request_of (replicate 102401 CHR ''a'')) empty_server
     = (\<lparr>status = 413, body = ''Payload Too Large''\<rparr>, empty_server)
   \<and> endpoint status_name (env_at 1000 True True)
        ((request_of flagged_m1)\<lparr>content_encoding := Unsupported ''compress''\<rparr>) empty_server
     = (\<lparr>status = 415, body = ''Unsupported Media Type''\<rparr>, empty_server)"
  by (simp add: endpoint_def express_raw_def request_of_def status_name_def send_def)

text \<open>
  C3, as the code has it. For every request that the body parser of the route hands to
  the handler, the one whose body does not parse as JSON among them, the answer has
  status 200 and the body \<open>ok\<close> or \<open>ignored\<close>; when the raw body does not
  parse, the body is \<open>ignored\<close>, an error is written to the console and nothing
  else happens. The parser hands over every body of at most 102400 bytes that comes with
  a Content-Type and a Content-Encoding it knows; a request without a body or without a
  Content-Type it does not read, and the handler, finding no event, answers
  \<open>ignored\<close>. A request that the parser refuses is answered with the status of the
  refusal, 400, 413 or 415, and the handler does not run: a body of more than 102400
  bytes gets 413, an unknown Content-Encoding 415, a body that cannot be read 400.
\<close>

theorem endpoint_200_unless_refused:
  "(express_raw r = Inr b \<longrightarrow>
      endpoint page e r st = webhook e b st
      \<and> status (fst (endpoint page e r st)) = 200
      \<and> (body (fst (endpoint page e r st)) = ''ok''
          \<or> body (fst (endpoint page e r st)) = ''ignored''))
   \<and> (express_raw r = Inr (Buffer raw) \<and> JSON_parse e raw = None \<longrightarrow>
      endpoint page e r st = (send 200 ''ignored'', log ConsoleError st))
   \<and> (express_raw r = Inl code \<longrightarrow>
      endpoint page e r st = (send code (page code), st)
      \<and> (code = 400 \<or> code = 413 \<or> code = 415))
   \<and> (content_type r \<noteq> None \<and> content_encoding r \<in> {Identity, Deflate, Gzip}
        \<and> entity r = Body raw \<longrightarrow>
      express_raw r = (if length raw > 102400 then Inl 413 else Inr (Buffer raw)))
   \<and> (content_type r \<noteq> None \<and> content_encoding r = Unsupported c \<and> entity r \<noteq> NoBody \<longrightarrow>
      express_raw r = Inl 415)
   \<and> (content_type r \<noteq> None \<and> content_encoding r \<in> {Identity, Deflate, Gzip}
        \<and> entity r = Unreadable \<longrightarrow>
      express_raw r = Inl 400)
   \<and> (content_type r = None \<or> entity r = NoBody \<longrightarrow>
      express_raw r = Inr (Parsed no_fields)
      \<and> endpoint page e r st = (send 200 ''ignored'', st))"
proof -
  have c1: "express_raw r = Inr b \<longrightarrow>
      endpoint page e r st = webhook e b st
      \<and> status (fst (endpoint page e r st)) = 200
      \<and> (body (fst (endpoint page e r st)) = ''ok''
          \<or> body (fst (endpoint page e r st)) = ''ignored'')"
    using webhook_answers_200 [of e b st] by (simp add: endpoint_def)
  have c2: "express_raw r = Inr (Buffer raw) \<and> JSON_parse e raw = None \<longrightarrow>
      endpoint page e r st = (send 200 ''ignored'', log ConsoleError st)"
    using webhook_parse_failure [of e raw st] by (simp add: endpoint_def)
  have c3: "express_raw r = Inl code \<longrightarrow>
      endpoint page e r st = (send code (page code), st)
      \<and> (code = 400 \<or> code = 413 \<or> code = 415)"
    by (auto simp: endpoint_def express_raw_def split: if_splits coding.splits entity.splits)
  have c4: "content_type r \<noteq> None \<and> content_encoding r \<in> {Identity, Deflate, Gzip}
        \<and> entity r = Body raw \<longrightarrow>
      express_raw r = (if length raw > 102400 then Inl 413 else Inr (Buffer raw))"
    by (auto simp: express_raw_def)
  have c5: "content_type r \<noteq> None \<and> content_encoding r = Unsupported c \<and> entity r \<noteq> NoBody \<longrightarrow>
      express_raw r = Inl 415"
    by (simp add: express_raw_def)
  have c6: "content_type r \<noteq> None \<and> content_encoding r \<in> {Identity, Deflate, Gzip}
        \<and> entity r = Unreadable \<longrightarrow>
      express_raw r = Inl 400"
    by (auto simp: express_raw_def)
  have c7: "content_type r = None \<or> entity r = NoBody \<longrightarrow>
      express_raw r = Inr (Parsed no_fields)
      \<and> endpoint page e r st = (send 200 ''ignored'', st)"
    by (auto simp: endpoint_def express_raw_def webhook_def parse_body_def no_fields_def
        flagged_event_def new_event_def queue_item_def)
  show ?thesis
    by (intro conjI) (rule c1 c2 c3 c4 c5 c6 c7)+
qed

theorem endpoint_200_unless_refused_witness:
  "express_raw (request_of ''{oops'') = Inr (Buffer ''{oops'')
   \<and> JSON_parse (env_at 1000 True True) ''{oops'' = None
   \<and> endpoint status_name (env_at 1000 True True) (request_of ''{oops'') empty_server
       = (\<lparr>status = 200, body = ''ignored''\<rparr>,
          \<lparr>flaggedCache = {}, cacheTimes = Map.empty, trace = [ConsoleError]\<rparr>)
   \<and> express_raw (request_of flagged_bot) = Inr (Buffer flagged_bot)
   \<and> fst (endpoint status_name (env_at 1000 True True) (request_of flagged_bot) empty_server)
       = \<lparr>status = 200, body = ''ignored''\<rparr>
   \<and> express_raw ((request_of ''{oops'')\<lparr>entity := Unreadable\<rparr>) = Inl 400
   \<and> endpoint status_name (env_at 1000 True True)
        ((request_of ''{oops'')\<lparr>entity := Unreadable\<rparr>) empty_server
       = (\<lparr>status = 400, body = ''Bad Request''\<rparr>, empty_server)
   \<and> express_raw ((request_of ''{oops'')\<lparr>content_encoding := Unsupported ''compress''\<rparr>) = Inl 415
   \<and> express_raw (request_of (replicate 102401 CHR ''a'')) = Inl 413
   \<and> endpoint status_name (env_at 1000 True True)
        ((request_of flagged_m1)\<lparr>content_type := None\<rparr>) empty_server
       = (\<lparr>status = 200, body = ''ignored''\<rparr>, empty_server)"
proof -
  let ?e = "env_at 1000 True True"
  let ?r = "request_of ''{oops''"
  let ?u = "(request_of ''{oops'')\<lparr>entity := Unreadable\<rparr>"
  let ?c = "(request_of ''{oops'')\<lparr>content_encoding := Unsupported ''compress''\<rparr>"
  let ?big = "request_of (replicate 102401 CHR ''a'')"
  let ?n = "(request_of flagged_m1)\<lparr>content_type := None\<rparr>"
  have t: "content_type ?r \<noteq> None \<and> content_encoding ?r \<in> {Identity, Deflate, Gzip}
           \<and> entity ?r = Body ''{oops''"
    by (simp add: request_of_def)
  have "express_raw ?r = (if length ''{oops'' > 102400 then Inl 413 else Inr (Buffer ''{oops''))"
    using endpoint_200_unless_refused [of ?r "Buffer ''{oops''" status_name ?e empty_server
        "''{oops''" 0 "[]"] t
    by blast
  then have x: "express_raw ?r = Inr (Buffer ''{oops'')" by simp
  have j: "JSON_parse ?e ''{oops'' = None" by (rule parse_fixtures)
  have "endpoint status_name ?e ?r empty_server = (send 200 ''ignored'', log ConsoleError empty_server)"
    using endpoint_200_unless_refused [of ?r "Buffer ''{oops''" status_name ?e empty_server
        "''{oops''" 0 "[]"] x j
    by blast
  then have y: "endpoint status_name ?e ?r empty_server
       = (\<lparr>status = 200, body = ''ignored''\<rparr>,
          \<lparr>flaggedCache = {}, cacheTimes = Map.empty, trace = [ConsoleError]\<rparr>)"
    by (simp add: send_def log_def empty_server_def)
  have tb: "content_type (request_of flagged_bot) \<noteq> None
           \<and> content_encoding (request_of flagged_bot) \<in> {Identity, Deflate, Gzip}
           \<and> entity (request_of flagged_bot) = Body flagged_bot"
    by (simp add: request_of_def)
  have lb: "\<not> length flagged_bot > 102400" by (simp add: flagged_bot_def)
  have "express_raw (request_of flagged_bot)
        = (if length flagged_bot > 102400 then Inl 413 else Inr (Buffer flagged_bot))"
    using endpoint_200_unless_refused [of "request_of flagged_bot" "Buffer flagged_bot"
        status_name ?e empty_server flagged_bot 0 "[]"] tb
    by blast
  then have xb: "express_raw (request_of flagged_bot) = Inr (Buffer flagged_bot)"
    using lb by simp
  have "endpoint status_name ?e (request_of flagged_bot) empty_server
        = webhook ?e (Buffer flagged_bot) empty_server"
    using endpoint_200_unless_refused [of "request_of flagged_bot" "Buffer flagged_bot"
        status_name ?e empty_server flagged_bot 0 "[]"] xb
    by blast
  then have yb: "fst (endpoint status_name ?e (request_of flagged_bot) empty_server)
       = \<lparr>status = 200, body = ''ignored''\<rparr>"
    by (simp add: webhook_def parse_fixtures author_id_def message_of_def event_of_def send_def)
  have tu: "content_type ?u \<noteq> None \<and> content_encoding ?u \<in> {Identity, Deflate, Gzip}
           \<and> entity ?u = Unreadable"
    by (simp add: request_of_def)
  have xu: "express_raw ?u = Inl 400"
    using endpoint_200_unless_refused [of ?u "Buffer []" status_name ?e empty_server "[]" 400 "[]"] tu
    by blast
  have "endpoint status_name ?e ?u empty_server = (send 400 (status_name 400), empty_server)"
    using endpoint_200_unless_refused [of ?u "Buffer []" status_name ?e empty_server "[]" 400 "[]"] xu
    by blast
  then have yu: "endpoint status_name ?e ?u empty_server
       = (\<lparr>status = 400, body = ''Bad Request''\<rparr>, empty_server)"
    by (simp add: send_def status_name_def)
  have tc: "content_type ?c \<noteq> None \<and> content_encoding ?c = Unsupported ''compress''
           \<and> entity ?c \<noteq> NoBody"
    by (simp add: request_of_def)
  have xc: "express_raw ?c = Inl 415"
    using endpoint_200_unless_refused [of ?c "Buffer []" status_name ?e empty_server "[]" 415
        "''compress''"] tc
    by blast
  have tg: "content_type ?big \<noteq> None \<and> content_encoding ?big \<in> {Identity, Deflate, Gzip}
           \<and> entity ?big = Body (replicate 102401 CHR ''a'')"
    by (simp add: request_of_def)
  have "express_raw ?big
        = (if length (replicate 102401 CHR ''a'') > 102400 then Inl 413
           else Inr (Buffer (replicate 102401 CHR ''a'')))"
    using endpoint_200_unless_refused [of ?big "Buffer []" status_name ?e empty_server
        "replicate 102401 CHR ''a''" 413 "[]"] tg
    by blast
  then have xg: "express_raw ?big = Inl 413" by simp
  have tn: "content_type ?n = None \<or> entity ?n = NoBody" by simp
  have "endpoint status_name ?e ?n empty_server = (send 200 ''ignored'', empty_server)"
    using endpoint_200_unless_refused [of ?n "Buffer []" status_name ?e empty_server "[]" 0 "[]"] tn
    by blast
  then have yn: "endpoint status_name ?e ?n empty_server
       = (\<lparr>status = 200, body = ''ignored''\<rparr>, empty_server)"
    by (simp add: send_def)
  show ?thesis using x j y xb yb xu yu xc xg yn by simp
qed

text \<open>
  C5. An event whose message is authored by \<open>system-bot\<close> is answered with
  \<open>ignored\<close> and leaves the server as it was, no call to the backend made,
  whatever its type, identifier, text and queue item; and a queue item that resolves to
  a message authored by \<open>system-bot\<close> sends no notice.
\<close>

theorem system_bot_ignored:
  assumes "author_id m = Some ''system-bot''"
  shows "(parse_body e req = Some p \<and> ev_message p = Some m
            \<longrightarrow> webhook e req st = (send 200 ''ignored'', st))
     \<and> (getMessage e mid = Resolves (Some m)
            \<longrightarrow> sent (trace (on_item e mid st)) = sent (trace st))"
  using assms by (simp add: webhook_def on_item_def log_def sent_append)

theorem system_bot_ignored_witness:
  "parse_body (env_at 1000 True True)
     (Buffer flagged_bot)
     = Some (event_of ''message.flagged'' (message_of ''m1'' ''messaging:general'' ''system-bot'' ''you fuck''))
   \<and> author_id (message_of ''m1'' ''messaging:general'' ''system-bot'' ''you fuck'') = Some ''system-bot''
   \<and> webhook (env_at 1000 True True)
       (Buffer flagged_bot)
       empty_server = (\<lparr>status = 200, body = ''ignored''\<rparr>, empty_server)
   \<and> getMessage ((env_at 1000 True True)\<lparr>getMessage := \<lambda>i. Resolves (Some
         (message_of ''m4'' ''messaging:general'' ''system-bot'' ''you fuck''))\<rparr>) ''m4''
       = Resolves (Some (message_of ''m4'' ''messaging:general'' ''system-bot'' ''you fuck''))
   \<and> sent (trace (on_item ((env_at 1000 True True)\<lparr>getMessage := \<lambda>i. Resolves (Some
         (message_of ''m4'' ''messaging:general'' ''system-bot'' ''you fuck''))\<rparr>) ''m4''
         empty_server)) = []"
proof -
  let ?m = "message_of ''m1'' ''messaging:general'' ''system-bot'' ''you fuck''"
  let ?p = "event_of ''message.flagged'' ?m"
  let ?g = "message_of ''m4'' ''messaging:general'' ''system-bot'' ''you fuck''"
  let ?e = "(env_at 1000 True True)\<lparr>getMessage := \<lambda>i. Resolves (Some ?g)\<rparr>"
  have g1: "getMessage ?e ''m4'' = Resolves (Some ?g)" by simp
  have g3: "author_id ?g = Some ''system-bot''" by (simp add: author_id_def message_of_def)
  have g: "sent (trace (on_item ?e ''m4'' empty_server)) = sent (trace empty_server)"
    using system_bot_ignored [OF g3, of ?e "Buffer flagged_bot" ?p empty_server "''m4''"] g1
    by blast
  have h1: "parse_body (env_at 1000 True True) (Buffer flagged_bot) = Some ?p"
    by (rule parse_fixtures)
  have h2: "ev_message ?p = Some ?m" by (simp add: event_of_def)
  have h3: "author_id ?m = Some ''system-bot''" by (simp add: author_id_def message_of_def)
  have "webhook (env_at 1000 True True) (Buffer flagged_bot) empty_server
        = (send 200 ''ignored'', empty_server)"
    using system_bot_ignored [OF h3, of "env_at 1000 True True" "Buffer flagged_bot" ?p empty_server]
      h1 h2
    by blast
  then show ?thesis
    using h1 h3 g g1 by (simp add: send_def) (simp add: empty_server_def)
qed

lemma webhook_no_zero:
  assumes "now_mark e \<noteq> 0" and "cacheTimes st j \<noteq> Some 0"
  shows "cacheTimes (snd (webhook e req st)) j \<noteq> Some 0"
proof -
  have l: "cacheTimes (log x s) j = cacheTimes s j" for x s
    by (simp add: log_def)
  have p: "cacheTimes s j \<noteq> Some 0 \<Longrightarrow> cacheTimes (snd (postNotice e m s)) j \<noteq> Some 0" for m s
    using assms(1) by (rule postNotice_no_zero)
  have f: "cacheTimes (on_flagged e m st) j \<noteq> Some 0" for m
    using p assms(2) by (simp add: on_flagged_def)
  have n: "cacheTimes (on_new e m i tx st) j \<noteq> Some 0" for m i tx
  proof -
    let ?st1 = "snd (wasFlaggedRecently (now_guard e) i st)"
    have s1: "cacheTimes ?st1 j \<noteq> Some 0"
      using assms(2) by (rule wasFlaggedRecently_no_zero)
    then have "cacheTimes (snd (postNotice e m (log (FlagMessage i) ?st1))) j \<noteq> Some 0"
      using p [of "log (FlagMessage i) ?st1" m] by (simp add: l)
    then show ?thesis
      using s1 assms(2)
      by (cases "postNotice e m (log (FlagMessage i) ?st1)")
         (auto simp: on_new_def Let_def case_prod_beta l split: promise.splits)
  qed
  have q: "cacheTimes (on_item e mid st) j \<noteq> Some 0" for mid
    using p [of "log (GetMessage mid) st"] assms(2)
    by (auto simp: on_item_def Let_def l split: promise.splits option.splits)
  show ?thesis
    using f n q assms(2) by (auto simp: webhook_def l split: option.splits)
qed




end
